theory Spec2Isabelle
  imports Main "HOL-Library.Word" "HOL-Library.Sublist"
begin

section \<open>The races repository (racing/db/races.go)\<close>

subsection \<open>Data\<close>

type_synonym int64 = "64 word"

text \<open>
  Instants of \<^verbatim>\<open>time.Time\<close>: nanoseconds on the wall clock. \<^verbatim>\<open>t.Before(u)\<close>
  is the strict order on instants.
\<close>

type_synonym time = int

definition Before :: "time \<Rightarrow> time \<Rightarrow> bool" where
  "Before t u = (t < u)"

text \<open>
  \<^verbatim>\<open>racing.ListRacesRequestFilter\<close>, with the three fields \<^verbatim>\<open>applyFilter\<close>
  reads. The filter reaches the repository as a pointer: \<open>None\<close> is \<^verbatim>\<open>nil\<close>.
\<close>

record ListRacesRequestFilter =
  MeetingIds :: "int64 list"
  VisibleOnly :: bool
  OrderBy :: string

subsection \<open>The library string functions the query builder calls\<close>

text \<open>\<^verbatim>\<open>strings.Repeat(s, count)\<close> for a count that is not negative.\<close>

definition Repeat :: "string \<Rightarrow> nat \<Rightarrow> string" where
  "Repeat s count = concat (replicate count s)"

text \<open>\<^verbatim>\<open>strings.Join(elems, sep)\<close>.\<close>

fun Join :: "string list \<Rightarrow> string \<Rightarrow> string" where
  "Join [] sep = []"
| "Join [x] sep = x"
| "Join (x # y # ys) sep = x @ sep @ Join (y # ys) sep"

subsection \<open>applyFilter\<close>

text \<open>
  The loop \<^verbatim>\<open>for _, meetingID := range filter.MeetingIds { args = append(args, meetingID) }\<close>.
\<close>

definition append_ids :: "int64 list \<Rightarrow> int64 list \<Rightarrow> int64 list" where
  "append_ids args ids = foldl (\<lambda>a meetingID. a @ [meetingID]) args ids"

text \<open>
  \<^verbatim>\<open>applyFilter(query, filter)\<close> returns the query and its positional arguments. Each
  \<open>let\<close> is one statement of the source, in the source's order; the \<^verbatim>\<open>nil\<close> filter
  returns at once.
\<close>

definition applyFilter :: "string \<Rightarrow> ListRacesRequestFilter option \<Rightarrow> string \<times> int64 list" where
  "applyFilter query fltr =
     (case fltr of
        None \<Rightarrow> (query, [])
      | Some f \<Rightarrow>
          (let (clauses, args) =
                 (if length (MeetingIds f) > 0
                  then ([''meeting_id IN ('' @ Repeat ''?,'' (length (MeetingIds f) - 1) @ ''?)''],
                        append_ids [] (MeetingIds f))
                  else ([], []));
               clauses = (if VisibleOnly f then clauses @ [''visible=true''] else clauses);
               query = (if length clauses \<noteq> 0
                        then query @ '' WHERE '' @ Join clauses '' AND '' else query);
               query = query @ '' ORDER BY advertised_start_time'';
               query = (if length (OrderBy f) > 0 \<and> (OrderBy f = ''ASC'' \<or> OrderBy f = ''DESC'')
                        then query @ '' '' @ OrderBy f else query)
           in (query, args)))"

subsection \<open>Rows, races and the mapper scanRaces\<close>

text \<open>
  Errors are values: \<^verbatim>\<open>sql.ErrNoRows\<close> is the one sentinel the code compares with,
  every other error carries its message. A Go result \<^verbatim>\<open>(v, err)\<close> is a pair whose
  second component is \<open>None\<close> for \<^verbatim>\<open>nil\<close>; a \<^verbatim>\<open>nil\<close> slice is the empty list.
\<close>

datatype error = ErrNoRows | Err string

record Timestamp =
  Seconds :: int
  Nanos :: int

text \<open>
  \<^verbatim>\<open>racing.Race\<close>, with the fields the mapper writes. The identifier field is
  \<^verbatim>\<open>Id\<close> in the source.
\<close>

record Race =
  Id' :: int64
  MeetingId :: int64
  Name :: string
  Number :: int64
  Visible :: bool
  AdvertisedStartTime :: "Timestamp option"
  Status :: string

text \<open>
  What \<^verbatim>\<open>rows.Scan\<close> stores for one row, in the column order of the call. A result
  set \<^verbatim>\<open>*sql.Rows\<close> is the list of the outcomes of \<^verbatim>\<open>rows.Scan\<close> on its rows, in
  the order \<^verbatim>\<open>rows.Next\<close> yields them: \<open>Inl err\<close> when the scan of that row fails.
\<close>

record scanned =
  scan_id :: int64
  scan_meeting_id :: int64
  scan_name :: string
  scan_number :: int64
  scan_visible :: bool
  advertisedStart :: time

type_synonym Rows = "(error + scanned) list"

text \<open>
  The race built by one pass of the loop body once the scan and the timestamp conversion
  succeeded: the scanned columns, the converted timestamp \<open>ts\<close>, and the status from
  comparing the advertised start with \<open>t\<close>, the value of \<^verbatim>\<open>time.Now()\<close> in that pass.
\<close>

definition mkRace :: "scanned \<Rightarrow> Timestamp \<Rightarrow> time \<Rightarrow> Race" where
  "mkRace c ts t =
     \<lparr>Id' = scan_id c, MeetingId = scan_meeting_id c, Name = scan_name c,
      Number = scan_number c, Visible = scan_visible c, AdvertisedStartTime = Some ts,
      Status = (if Before (advertisedStart c) t then ''CLOSED'' else ''OPEN'')\<rparr>"

text \<open>
  The loop of \<^verbatim>\<open>scanRaces\<close>. \<open>tsproto\<close> is \<^verbatim>\<open>ptypes.TimestampProto\<close>; \<open>now i\<close> is
  what \<^verbatim>\<open>time.Now()\<close> returns in the pass that maps row \<open>i\<close> of this call (the clock
  is read once in every pass that gets that far, so the pass number is the number of
  races appended so far).
\<close>

fun scanRaces_loop ::
  "(time \<Rightarrow> error + Timestamp) \<Rightarrow> (nat \<Rightarrow> time) \<Rightarrow> Rows \<Rightarrow> Race list \<Rightarrow> Race list \<times> error option"
where
  "scanRaces_loop tsproto now [] races = (races, None)"
| "scanRaces_loop tsproto now (Inl err # rows) races =
     (if err = ErrNoRows then ([], None) else ([], Some err))"
| "scanRaces_loop tsproto now (Inr c # rows) races =
     (case tsproto (advertisedStart c) of
        Inl err \<Rightarrow> ([], Some err)
      | Inr ts \<Rightarrow>
          scanRaces_loop tsproto now rows (races @ [mkRace c ts (now (length races))]))"

definition scanRaces ::
  "(time \<Rightarrow> error + Timestamp) \<Rightarrow> (nat \<Rightarrow> time) \<Rightarrow> Rows \<Rightarrow> Race list \<times> error option"
where
  "scanRaces tsproto now rows = scanRaces_loop tsproto now rows []"

subsection \<open>The repository: Init, List, Get\<close>

text \<open>
  What the repository calls and \<^verbatim>\<open>races.go\<close> does not define: the list query
  \<^verbatim>\<open>getRaceQueries()[racesList]\<close>, \<^verbatim>\<open>(*sql.DB).Query\<close> on a database of type \<open>'db\<close>,
  \<^verbatim>\<open>ptypes.TimestampProto\<close>, and the seeding \<^verbatim>\<open>r.seed()\<close>, which may change the
  database.
\<close>

record 'db externals =
  racesList :: string
  Query :: "'db \<Rightarrow> string \<Rightarrow> int64 list \<Rightarrow> error + Rows"
  TimestampProto :: "time \<Rightarrow> error + Timestamp"
  seed :: "'db \<Rightarrow> error option \<times> 'db"

text \<open>
  \<^verbatim>\<open>racesRepo\<close>: the database handle and the \<^verbatim>\<open>sync.Once\<close>, whose state is its
  done flag.
\<close>

record 'db racesRepo =
  db :: 'db
  init :: bool

definition NewRacesRepo :: "'db \<Rightarrow> 'db racesRepo" where
  "NewRacesRepo d = \<lparr>db = d, init = False\<rparr>"



definition List :: "'db externals \<Rightarrow> (nat \<Rightarrow> time) \<Rightarrow> 'db racesRepo \<Rightarrow>
    ListRacesRequestFilter option \<Rightarrow> Race list \<times> error option" where
  "List X now r fltr =
     (let query = racesList X;
          (query, args) = applyFilter query fltr
      in case Query X (db r) query args of
           Inl err \<Rightarrow> ([], Some err)
         | Inr rows \<Rightarrow> scanRaces (TimestampProto X) now rows)"

text \<open>
  \<^verbatim>\<open>strconv.FormatInt(i, 10)\<close>: the decimal digits of the signed value, with a minus
  sign when it is negative.
\<close>

definition digit :: "nat \<Rightarrow> char" where
  "digit d = ''0123456789'' ! d"

fun digits :: "nat \<Rightarrow> string" where
  "digits n = (if n < 10 then [digit n] else digits (n div 10) @ [digit (n mod 10)])"

declare digits.simps [simp del]

definition FormatInt10 :: "int64 \<Rightarrow> string" where
  "FormatInt10 i =
     (if sint i < 0 then CHR ''-'' # digits (nat (- sint i)) else digits (nat (sint i)))"

text \<open>
  A call either returns or panics: Go panics on reading a field through a \<^verbatim>\<open>nil\<close>
  pointer and on an index out of range.
\<close>

datatype 'a outcome = Panic | Return 'a

definition index :: "'a list \<Rightarrow> nat \<Rightarrow> 'a outcome" where
  "index xs i = (if i < length xs then Return (xs ! i) else Panic)"

record GetRaceRequest =
  req_Id :: int64

text \<open>
  \<^verbatim>\<open>Get\<close>. The request is a pointer (\<open>None\<close> is \<^verbatim>\<open>nil\<close>); the result is the pair of
  the race pointer and the error. \<open>args\<close> is declared and never assigned, so the query
  runs with no arguments.
\<close>

definition Get :: "'db externals \<Rightarrow> (nat \<Rightarrow> time) \<Rightarrow> 'db racesRepo \<Rightarrow>
    GetRaceRequest option \<Rightarrow> (Race option \<times> error option) outcome" where
  "Get X now r fltr =
     (case fltr of
        None \<Rightarrow> Panic
      | Some f \<Rightarrow>
          (let args = [];
               query = racesList X;
               query = query @ '' WHERE id='' @ FormatInt10 (req_Id f)
           in case Query X (db r) query args of
                Inl err \<Rightarrow> Return (None, Some err)
              | Inr rows \<Rightarrow>
                  (let (races, err) = scanRaces (TimestampProto X) now rows
                   in if length races = 0 then Return (None, err)
                      else (case index races 0 of
                              Panic \<Rightarrow> Panic
                            | Return race \<Rightarrow> Return (Some race, err)))))"

section \<open>The sports service (sports/service/sports.go)\<close>

text \<open>
  \<^verbatim>\<open>ListEvents\<close> over the repository's \<^verbatim>\<open>List\<close>, which it takes as given (a Go
  result pair of the events and the error). The request is a pointer.
\<close>

record 'f ListEventsRequest =
  Filter :: 'f

record 'e ListEventsResponse =
  Events :: "'e list"

definition ListEvents :: "('f \<Rightarrow> 'e list \<times> error option) \<Rightarrow> 'f ListEventsRequest option \<Rightarrow>
    ('e ListEventsResponse option \<times> error option) outcome" where
  "ListEvents eventsRepo_List inp =
     (case inp of
        None \<Rightarrow> Panic
      | Some rq \<Rightarrow>
          (let (events, err) = eventsRepo_List (Filter rq)
           in if err \<noteq> None then Return (None, err)
              else Return (Some \<lparr>Events = events\<rparr>, None)))"

section \<open>The gateway (api main: run)\<close>

text \<open>
  The multiplexer is the list of the services registered on it. The two generated
  registration functions and \<^verbatim>\<open>http.ListenAndServe\<close> are taken as given; a
  registration returns its error and the multiplexer as it leaves it.
\<close>

type_synonym mux = "string list"

record gateway =
  apiEndpoint :: string
  racingEndpoint :: string
  sportsEndpoint :: string
  RegisterRacingHandlerFromEndpoint :: "mux \<Rightarrow> string \<Rightarrow> error option \<times> mux"
  RegisterSportsHandlerFromEndpoint :: "mux \<Rightarrow> string \<Rightarrow> error option \<times> mux"
  ListenAndServe :: "string \<Rightarrow> mux \<Rightarrow> error option"

text \<open>What \<^verbatim>\<open>run\<close> does to the outside, in order.\<close>

datatype event =
  RegisterRacing string
| RegisterSports string
| Printf string
| Listen string mux

text \<open>\<^verbatim>\<open>run\<close>: the events it causes and the error it returns.\<close>

definition run :: "gateway \<Rightarrow> event list \<times> error option" where
  "run G =
     (let mux = [] in
      case RegisterRacingHandlerFromEndpoint G mux (racingEndpoint G) of
        (Some racingErr, _) \<Rightarrow> ([RegisterRacing (racingEndpoint G)], Some racingErr)
      | (None, mux) \<Rightarrow>
          (case RegisterSportsHandlerFromEndpoint G mux (sportsEndpoint G) of
             (Some sportsErr, _) \<Rightarrow>
               ([RegisterRacing (racingEndpoint G), RegisterSports (sportsEndpoint G)],
                Some sportsErr)
           | (None, mux) \<Rightarrow>
               ([RegisterRacing (racingEndpoint G), RegisterSports (sportsEndpoint G),
                 Printf (''API server listening on: '' @ apiEndpoint G),
                 Listen (apiEndpoint G) mux],
                ListenAndServe G (apiEndpoint G) mux)))"

section \<open>Reference notions for the query builder\<close>

text \<open>
  Reference notions the theorems compare the builder with: the ORDER BY clause a present
  filter asks for, the placeholder list of a membership clause, and whether a query ends
  with an ORDER BY clause on the advertised start time (bare, or with a direction).
\<close>

definition order_clause :: "ListRacesRequestFilter \<Rightarrow> string" where
  "order_clause f =
     '' ORDER BY advertised_start_time'' @
     (if OrderBy f = ''ASC'' then '' ASC'' else if OrderBy f = ''DESC'' then '' DESC'' else [])"

definition placeholders :: "nat \<Rightarrow> string" where
  "placeholders n = Join (replicate n ''?'') '',''"

definition ends_with_order_by :: "string \<Rightarrow> bool" where
  "ends_with_order_by q =
     (suffix '' ORDER BY advertised_start_time'' q \<or>
      suffix '' ORDER BY advertised_start_time ASC'' q \<or>
      suffix '' ORDER BY advertised_start_time DESC'' q)"

text \<open>Reading a decimal literal back, to compare \<open>FormatInt10\<close> with.\<close>

definition decimal_value :: "string \<Rightarrow> nat" where
  "decimal_value s = foldl (\<lambda>a c. 10 * a + (of_char c - 48)) 0 s"

definition ParseInt10 :: "string \<Rightarrow> int" where
  "ParseInt10 s =
     (case s of
        [] \<Rightarrow> 0
      | c # ds \<Rightarrow> if c = CHR ''-'' then - int (decimal_value ds) else int (decimal_value s))"

text \<open>Whether a trace of \<^verbatim>\<open>run\<close> reaches the listening step.\<close>

definition is_Listen :: "event \<Rightarrow> bool" where
  "is_Listen e = (case e of Listen a m \<Rightarrow> True | _ \<Rightarrow> False)"

definition serves :: "event list \<Rightarrow> bool" where
  "serves trace = list_ex is_Listen trace"

section \<open>Example inputs\<close>

text \<open>
  A list query, two scanned rows, and a store for the examples below: its database is a
  table kept in ascending order of advertised start, and it answers a query without
  predicates with the whole table, reversed when the query ends in a descending ORDER BY
  on the advertised start time. The example clocks are constant.
\<close>

definition list_query :: string where
  "list_query = ''SELECT id, meeting_id, name, number, visible, advertised_start_time FROM races''"

definition race_a :: scanned where
  "race_a = \<lparr>scan_id = 1, scan_meeting_id = 5, scan_name = ''A'', scan_number = 1,
             scan_visible = True, advertisedStart = 100\<rparr>"

definition race_b :: scanned where
  "race_b = \<lparr>scan_id = 2, scan_meeting_id = 5, scan_name = ''B'', scan_number = 2,
             scan_visible = True, advertisedStart = 200\<rparr>"

definition example_Query :: "scanned list \<Rightarrow> string \<Rightarrow> int64 list \<Rightarrow> error + Rows" where
  "example_Query table q args =
     (if suffix '' ORDER BY advertised_start_time DESC'' q
      then Inr (map Inr (rev table)) else Inr (map Inr table))"

definition example_tsproto :: "time \<Rightarrow> error + Timestamp" where
  "example_tsproto t = Inr \<lparr>Seconds = t div 1000000000, Nanos = t mod 1000000000\<rparr>"

definition example_seed :: "scanned list \<Rightarrow> error option \<times> scanned list" where
  "example_seed table = (None, table @ [race_a, race_b])"


definition example_X :: "scanned list externals" where
  "example_X = \<lparr>racesList = list_query, Query = example_Query,
                 TimestampProto = example_tsproto, seed = example_seed\<rparr>"


definition at_150 :: "nat \<Rightarrow> time" where
  "at_150 i = 150"

definition at_250 :: "nat \<Rightarrow> time" where
  "at_250 i = 250"

definition desc_filter :: ListRacesRequestFilter where
  "desc_filter = \<lparr>MeetingIds = [], VisibleOnly = False, OrderBy = ''DESC''\<rparr>"

definition ids_filter :: ListRacesRequestFilter where
  "ids_filter = \<lparr>MeetingIds = [3, 7], VisibleOnly = True, OrderBy = ''desc''\<rparr>"

definition at_200 :: "nat \<Rightarrow> time" where
  "at_200 i = 200"

definition id_request :: GetRaceRequest where
  "id_request = \<lparr>req_Id = - 42\<rparr>"

text \<open>
  A store that answers one query only, the one \<^verbatim>\<open>Get\<close> is expected to send for the
  identifier -42 with no arguments, and fails on any other.
\<close>

definition spy_Query :: "scanned list \<Rightarrow> string \<Rightarrow> int64 list \<Rightarrow> error + Rows" where
  "spy_Query table q args =
     (if q = list_query @ '' WHERE id=-42'' \<and> args = [] then Inr (map Inr table)
      else Inl (Err ''unexpected query''))"

definition spy_X :: "scanned list externals" where
  "spy_X = \<lparr>racesList = list_query, Query = spy_Query,
             TimestampProto = example_tsproto, seed = example_seed\<rparr>"

text \<open>
  Gateways whose registrations succeed (adding the service to the multiplexer) or fail,
  and an events repository that answers a filter with three events or with an error.
\<close>

definition register_ok :: "string \<Rightarrow> mux \<Rightarrow> string \<Rightarrow> error option \<times> mux" where
  "register_ok service m endpoint = (None, m @ [service])"

definition register_fails :: "mux \<Rightarrow> string \<Rightarrow> error option \<times> mux" where
  "register_fails m endpoint = (Some (Err ''bad endpoint''), m)"

definition server_closed :: "string \<Rightarrow> mux \<Rightarrow> error option" where
  "server_closed addr m = Some (Err ''server closed'')"

definition gateway_up :: gateway where
  "gateway_up =
     \<lparr>apiEndpoint = ''localhost:8000'', racingEndpoint = ''localhost:9000'',
      sportsEndpoint = ''localhost:10000'',
      RegisterRacingHandlerFromEndpoint = register_ok ''racing'',
      RegisterSportsHandlerFromEndpoint = register_ok ''sports'',
      ListenAndServe = server_closed\<rparr>"

definition gateway_sports_down :: gateway where
  "gateway_sports_down = gateway_up\<lparr>RegisterSportsHandlerFromEndpoint := register_fails\<rparr>"

definition gateway_racing_down :: gateway where
  "gateway_racing_down = gateway_up\<lparr>RegisterRacingHandlerFromEndpoint := register_fails\<rparr>"

definition events_found :: "nat \<Rightarrow> nat list \<times> error option" where
  "events_found flt = ([flt + 2, flt, flt + 1], None)"

definition events_failed :: "nat \<Rightarrow> nat list \<times> error option" where
  "events_failed flt = ([], Some (Err ''query failed''))"

definition events_request :: "nat ListEventsRequest" where
  "events_request = \<lparr>Filter = 7\<rparr>"

section \<open>Properties of the query builder\<close>

lemma append_ids_eq: "append_ids args ids = args @ ids"
  unfolding append_ids_def by (induction ids arbitrary: args) simp_all

lemma Join_replicate_Suc:
  "Join (replicate (Suc n) ''?'') '','' = Repeat ''?,'' n @ ''?''"
  unfolding Repeat_def by (induction n) simp_all

lemma placeholders_eq: "0 < n \<Longrightarrow> Repeat ''?,'' (n - 1) @ ''?'' = placeholders n"
  unfolding placeholders_def using Join_replicate_Suc [of "n - 1"] by simp

lemma order_clause_alt:
  "order_clause f =
     '' ORDER BY advertised_start_time'' @
     (if OrderBy f \<noteq> [] \<and> (OrderBy f = ''ASC'' \<or> OrderBy f = ''DESC'') then '' '' @ OrderBy f else [])"
  unfolding order_clause_def by auto

lemma applyFilter_Some:
  "applyFilter q (Some f) =
     (q @ (if MeetingIds f \<noteq> []
           then '' WHERE meeting_id IN ('' @ placeholders (length (MeetingIds f)) @ '')'' @
                (if VisibleOnly f then '' AND visible=true'' else [])
           else if VisibleOnly f then '' WHERE visible=true'' else [])
        @ order_clause f,
      MeetingIds f)"
proof (cases "MeetingIds f = []")
  case True
  then show ?thesis
    unfolding applyFilter_def by (simp add: order_clause_alt Let_def)
next
  case False
  then have n: "0 < length (MeetingIds f)" by simp
  show ?thesis
    unfolding applyFilter_def using False
    by (simp add: order_clause_alt Let_def append_ids_eq placeholders_eq [OF n, symmetric])
qed


section \<open>Properties of the mapper and of the decimal literal\<close>


lemma loop_ok:
  "\<forall>c\<in>set cs. \<not> isl (tsproto (advertisedStart c)) \<Longrightarrow>
   scanRaces_loop tsproto now (map Inr cs) acc =
     (acc @ map (\<lambda>(i, c). mkRace c (projr (tsproto (advertisedStart c))) (now i))
               (enumerate (length acc) cs), None)"
proof (induction cs arbitrary: acc)
  case Nil
  then show ?case by simp
next
  case (Cons c cs)
  from Cons.prems obtain ts where ts: "tsproto (advertisedStart c) = Inr ts"
    by (cases "tsproto (advertisedStart c)") auto
  from Cons.prems have rest: "\<forall>c\<in>set cs. \<not> isl (tsproto (advertisedStart c))" by simp
  show ?case
    using Cons.IH [OF rest, of "acc @ [mkRace c ts (now (length acc))]"] ts by simp
qed

lemma loop_cases:
  "(\<exists>cs. rows = map Inr cs \<and> (\<forall>c\<in>set cs. \<not> isl (tsproto (advertisedStart c)))) \<or>
   fst (scanRaces_loop tsproto now rows acc) = []"
proof (induction tsproto now rows acc rule: scanRaces_loop.induct)
  case (1 tsproto now races)
  then show ?case by simp
next
  case (2 tsproto now err rows races)
  then show ?case by simp
next
  case (3 tsproto now c rows races)
  show ?case
  proof (cases "tsproto (advertisedStart c)")
    case (Inl e)
    then show ?thesis by simp
  next
    case (Inr ts)
    from 3 [OF Inr] show ?thesis
    proof
      assume "\<exists>cs. rows = map Inr cs \<and> (\<forall>c\<in>set cs. \<not> isl (tsproto (advertisedStart c)))"
      then obtain cs where cs: "rows = map Inr cs" "\<forall>c\<in>set cs. \<not> isl (tsproto (advertisedStart c))"
        by blast
      have "Inr c # rows = map Inr (c # cs) \<and> (\<forall>c\<in>set (c # cs). \<not> isl (tsproto (advertisedStart c)))"
        using cs Inr by simp
      then show ?thesis by (intro disjI1 exI [of _ "c # cs"])
    next
      assume "fst (scanRaces_loop tsproto now rows (races @ [mkRace c ts (now (length races))])) = []"
      then show ?thesis using Inr by simp
    qed
  qed
qed

lemma loop_ErrNoRows:
  "\<forall>c\<in>set cs. \<not> isl (tsproto (advertisedStart c)) \<Longrightarrow>
   scanRaces_loop tsproto now (map Inr cs @ Inl ErrNoRows # rest) acc = ([], None)"
proof (induction cs arbitrary: acc)
  case Nil
  then show ?case by simp
next
  case (Cons c cs)
  then show ?case by (cases "tsproto (advertisedStart c)") auto
qed

lemma digit_value_digit: "d < 10 \<Longrightarrow> of_char (digit d) = 48 + d"
proof -
  assume "d < 10"
  then have "d \<in> {0,1,2,3,4,5,6,7,8,9}" by auto
  then show ?thesis unfolding digit_def by auto
qed


lemma digits_small: "n < 10 \<Longrightarrow> digits n = [digit n]"
  by (subst digits.simps) simp

lemma digits_large: "\<not> n < 10 \<Longrightarrow> digits n = digits (n div 10) @ [digit (n mod 10)]"
  by (subst digits.simps) simp

lemma digit_char: "d < 10 \<Longrightarrow> digit d \<in> set ''0123456789''"
  unfolding digit_def by (simp only: nth_mem length_Cons list.size)

lemma digits_value: "foldl (\<lambda>a c. 10 * a + (of_char c - 48)) 0 (digits n) = n"
proof (induction n rule: digits.induct)
  case (1 n)
  show ?case
  proof (cases "n < 10")
    case True
    then show ?thesis by (simp add: digits_small digit_value_digit)
  next
    case False
    have m: "n mod 10 < 10" by simp
    from False 1 have "foldl (\<lambda>a c. 10 * a + (of_char c - 48)) 0 (digits (n div 10)) = n div 10"
      by simp
    with False show ?thesis
      by (simp add: digits_large digit_value_digit [OF m])
  qed
qed

lemma digits_chars: "set (digits n) \<subseteq> set ''0123456789''"
proof -
  define S where "S = set ''0123456789''"
  have d: "\<And>d. d < 10 \<Longrightarrow> digit d \<in> S"
    unfolding S_def by (rule digit_char)
  have "set (digits n) \<subseteq> S"
  proof (induction n rule: digits.induct)
    case (1 n)
    show ?case
    proof (cases "n < 10")
      case True
      then show ?thesis using d [of n] by (simp add: digits_small)
    next
      case False
      have m: "n mod 10 < 10" by simp
      from False 1 have "set (digits (n div 10)) \<subseteq> S" by simp
      with d [OF m] show ?thesis by (simp add: digits_large [OF False])
    qed
  qed
  then show ?thesis unfolding S_def .
qed

lemma digits_nonempty: "digits n \<noteq> []"
  by (cases "n < 10") (simp_all add: digits_small digits_large)

lemma digits_no_minus: "digits n = c # ds \<Longrightarrow> c \<noteq> CHR ''-''"
proof -
  assume "digits n = c # ds"
  then have "c \<in> set (digits n)" by simp
  with digits_chars [of n] have "c \<in> set ''0123456789''" by (rule subsetD)
  then show ?thesis by (simp only: set_simps insert_iff empty_iff) (elim disjE; simp)
qed

lemma ParseInt10_digits: "ParseInt10 (digits n) = int n"
proof (cases "digits n")
  case Nil
  then show ?thesis using digits_nonempty [of n] by simp
next
  case (Cons c ds)
  then show ?thesis
    using digits_no_minus [OF Cons] digits_value [of n]
    unfolding ParseInt10_def decimal_value_def by simp
qed

lemma FormatInt10_roundtrip: "ParseInt10 (FormatInt10 i) = sint i"
proof (cases "sint i < 0")
  case True
  have "ParseInt10 (CHR ''-'' # digits (nat (- sint i))) = - int (nat (- sint i))"
    unfolding ParseInt10_def decimal_value_def using digits_value [of "nat (- sint i)"]
    by (simp add: decimal_value_def)
  with True show ?thesis unfolding FormatInt10_def by simp
next
  case False
  then show ?thesis unfolding FormatInt10_def by (simp add: ParseInt10_digits)
qed

lemma FormatInt10_chars: "set (FormatInt10 i) \<subseteq> set ''-0123456789''"
proof (cases "sint i < 0")
  case True
  have "set (CHR ''-'' # digits (nat (- sint i))) \<subseteq> insert CHR ''-'' (set ''0123456789'')"
    using digits_chars [of "nat (- sint i)"] by (simp only: list.set) (rule insert_mono)
  with True show ?thesis unfolding FormatInt10_def by (simp only: if_True list.set)
next
  case False
  have "set ''0123456789'' \<subseteq> set ''-0123456789''" by (simp only: list.set) (rule subset_insertI)
  with digits_chars [of "nat (sint i)"] have "set (digits (nat (sint i))) \<subseteq> set ''-0123456789''"
    by (rule subset_trans)
  with False show ?thesis unfolding FormatInt10_def by (simp only: if_False)
qed




lemma Get_unfold:
  "Get X now r (Some f) =
     (case Query X (db r) (racesList X @ '' WHERE id='' @ FormatInt10 (req_Id f)) [] of
        Inl err \<Rightarrow> Return (None, Some err)
      | Inr rows \<Rightarrow>
          (case scanRaces (TimestampProto X) now rows of
             ([], err) \<Rightarrow> Return (None, err)
           | (race # _, err) \<Rightarrow> Return (Some race, err)))"
  unfolding Get_def index_def
  by (simp add: Let_def split: sum.splits prod.splits list.splits)

lemma scanRaces_ok:
  "\<forall>c\<in>set cs. \<not> isl (tsproto (advertisedStart c)) \<Longrightarrow>
   scanRaces tsproto now (map Inr cs) =
     (map (\<lambda>(i, c). mkRace c (projr (tsproto (advertisedStart c))) (now i)) (enumerate 0 cs), None)"
  unfolding scanRaces_def using loop_ok [of cs tsproto now "[]"] by simp

lemma scanRaces_cases:
  "(\<exists>cs. rows = map Inr cs \<and> (\<forall>c\<in>set cs. \<not> isl (tsproto (advertisedStart c)))) \<or>
   fst (scanRaces tsproto now rows) = []"
  unfolding scanRaces_def by (rule loop_cases)

lemma scanRaces_nth:
  assumes "scanRaces tsproto now rows = (races, err)" and "i < length races"
  shows "\<exists>c. rows ! i = Inr c \<and> i < length rows \<and> length races = length rows \<and> err = None \<and>
           \<not> isl (tsproto (advertisedStart c)) \<and>
           races ! i = mkRace c (projr (tsproto (advertisedStart c))) (now i)"
proof -
  from assms have "fst (scanRaces tsproto now rows) \<noteq> []" by auto
  with scanRaces_cases [of rows tsproto now] obtain cs where
    cs: "rows = map Inr cs" "\<forall>c\<in>set cs. \<not> isl (tsproto (advertisedStart c))" by blast
  from scanRaces_ok [OF cs(2), of now] assms(1) cs(1)
  have r: "races = map (\<lambda>(i, c). mkRace c (projr (tsproto (advertisedStart c))) (now i)) (enumerate 0 cs)"
    and e: "err = None" by simp_all
  from r assms(2) have i: "i < length cs" by simp
  then have "cs ! i \<in> set cs" by simp
  with cs(2) have ok: "\<not> isl (tsproto (advertisedStart (cs ! i)))" by blast
  from r i have "races ! i = mkRace (cs ! i) (projr (tsproto (advertisedStart (cs ! i)))) (now i)"
    by (simp add: nth_enumerate_eq)
  with cs(1) i e r ok show ?thesis by simp
qed






lemma count_Repeat: "length (filter (\<lambda>c. c = CHR ''?'') (Repeat ''?,'' n)) = n"
  unfolding Repeat_def by (induction n) simp_all

lemma count_placeholders: "length (filter (\<lambda>c. c = CHR ''?'') (placeholders n)) = n"
proof (cases n)
  case 0
  then show ?thesis by (simp add: placeholders_def)
next
  case (Suc m)
  have "length (filter (\<lambda>c. c = CHR ''?'') (Join (replicate (Suc m) ''?'') '','')) = Suc m"
    by (simp only: Join_replicate_Suc) (simp add: count_Repeat)
  with Suc show ?thesis
    unfolding placeholders_def by simp
qed

lemma applyFilter_present_order:
  "suffix (order_clause f) (fst (applyFilter q (Some f))) \<and>
   ends_with_order_by (fst (applyFilter q (Some f)))"
proof -
  have s: "suffix (order_clause f) (fst (applyFilter q (Some f)))"
    by (simp add: applyFilter_Some suffix_def)
  then have "ends_with_order_by (fst (applyFilter q (Some f)))"
    unfolding ends_with_order_by_def order_clause_def by (simp split: if_splits)
  with s show ?thesis ..
qed

section \<open>The claims about the query builder\<close>

text \<open>
  C1 (the code at the absent filter). The claim says that for every input, the absent
  (nil) filter included, the produced query ends with an ORDER BY clause on the
  advertised start time. For the absent filter the builder returns the query it was given
  and no arguments, whatever the query: the example list query comes back unchanged and
  does not end with an ORDER BY clause. (For every present filter the clause is there,
  with the direction the claim states: \<open>applyFilter_present_order\<close>.)
\<close>

theorem applyFilter_nil_no_order:
  "applyFilter q None = (q, []) \<and>
   applyFilter list_query None = (list_query, []) \<and>
   \<not> ends_with_order_by (fst (applyFilter list_query None))"
  by (simp add: applyFilter_def list_query_def ends_with_order_by_def suffix_to_prefix)

text \<open>
  C6. For a filter with a non-empty identifier set the builder appends a membership
  clause on \<^verbatim>\<open>meeting_id\<close> with one placeholder per identifier and returns the
  identifiers, in order, as the arguments; with an empty set there is no membership
  clause; the narrowing flag adds \<^verbatim>\<open>visible=true\<close>, after the membership clause and
  joined to it with AND. The placeholder list has one question mark per identifier, and
  the query text depends on the identifiers only through their number.
\<close>

theorem applyFilter_clauses:
  "(MeetingIds f \<noteq> [] \<longrightarrow>
      applyFilter q (Some f) =
        (q @ '' WHERE meeting_id IN ('' @ placeholders (length (MeetingIds f)) @ '')'' @
           (if VisibleOnly f then '' AND visible=true'' else []) @ order_clause f,
         MeetingIds f)) \<and>
   (MeetingIds f = [] \<longrightarrow>
      applyFilter q (Some f) =
        (q @ (if VisibleOnly f then '' WHERE visible=true'' else []) @ order_clause f, [])) \<and>
   length (filter (\<lambda>c. c = CHR ''?'') (placeholders (length (MeetingIds f)))) = length (MeetingIds f) \<and>
   (length (MeetingIds g) = length (MeetingIds f) \<and> VisibleOnly g = VisibleOnly f \<and>
    OrderBy g = OrderBy f \<longrightarrow>
      fst (applyFilter q (Some g)) = fst (applyFilter q (Some f)))"
proof (intro conjI impI)
  assume "MeetingIds f \<noteq> []"
  then show "applyFilter q (Some f) =
        (q @ '' WHERE meeting_id IN ('' @ placeholders (length (MeetingIds f)) @ '')'' @
           (if VisibleOnly f then '' AND visible=true'' else []) @ order_clause f,
         MeetingIds f)"
    by (simp add: applyFilter_Some)
next
  assume "MeetingIds f = []"
  then show "applyFilter q (Some f) =
        (q @ (if VisibleOnly f then '' WHERE visible=true'' else []) @ order_clause f, [])"
    by (simp add: applyFilter_Some)
next
  show "length (filter (\<lambda>c. c = CHR ''?'') (placeholders (length (MeetingIds f)))) = length (MeetingIds f)"
    by (rule count_placeholders)
next
  assume "length (MeetingIds g) = length (MeetingIds f) \<and> VisibleOnly g = VisibleOnly f \<and>
    OrderBy g = OrderBy f"
  then have "length (MeetingIds g) = length (MeetingIds f)" "VisibleOnly g = VisibleOnly f"
    "order_clause g = order_clause f" by (simp_all add: order_clause_def)
  moreover from this(1) have "(MeetingIds g = []) = (MeetingIds f = [])" by auto
  ultimately show "fst (applyFilter q (Some g)) = fst (applyFilter q (Some f))"
    by (simp add: applyFilter_Some)
qed

theorem applyFilter_clauses_witness:
  "applyFilter list_query (Some ids_filter) =
     (list_query @ '' WHERE meeting_id IN (?,?) AND visible=true ORDER BY advertised_start_time'',
      [3, 7]) \<and>
   applyFilter list_query (Some desc_filter) =
     (list_query @ '' ORDER BY advertised_start_time DESC'', []) \<and>
   fst (applyFilter list_query (Some (ids_filter\<lparr>MeetingIds := [8, 9]\<rparr>))) =
     fst (applyFilter list_query (Some ids_filter))"
  using applyFilter_clauses [of ids_filter list_query "ids_filter\<lparr>MeetingIds := [8, 9]\<rparr>"]
    applyFilter_clauses [of desc_filter list_query desc_filter]
  by (simp add: ids_filter_def desc_filter_def placeholders_def order_clause_def)




lemma List_unfold:
  "List X now r fltr =
     (case Query X (db r) (fst (applyFilter (racesList X) fltr)) (snd (applyFilter (racesList X) fltr)) of
        Inl err \<Rightarrow> ([], Some err)
      | Inr rows \<Rightarrow> scanRaces (TimestampProto X) now rows)"
  unfolding List_def by (simp add: Let_def case_prod_beta)

lemma scanRaces_Nil: "scanRaces tsproto now [] = ([], None)"
  unfolding scanRaces_def by simp

lemma example_rows_ok: "\<not> isl (example_tsproto t)"
  unfolding example_tsproto_def by simp

section \<open>The claims about List, Init and Get\<close>

text \<open>
  C2 (counterexample). The claim says that every filter with an empty identifier set and
  the narrowing flag unset makes \<^verbatim>\<open>List\<close> return what it returns with no filter, in
  the same order. The filter with the order directive \<^verbatim>\<open>DESC\<close> is such a filter; on
  the example store \<^verbatim>\<open>List\<close> returns the races 2, 1 with it and 1, 2 without a
  filter.
\<close>

theorem List_desc_filter_differs:
  "MeetingIds desc_filter = [] \<and> \<not> VisibleOnly desc_filter \<and>
   map Id' (fst (List example_X at_150 (NewRacesRepo [race_a, race_b]) (Some desc_filter))) = [2, 1] \<and>
   map Id' (fst (List example_X at_150 (NewRacesRepo [race_a, race_b]) None)) = [1, 2]"
  by (simp add: List_unfold applyFilter_def desc_filter_def example_X_def example_Query_def
      list_query_def NewRacesRepo_def suffix_to_prefix scanRaces_def example_tsproto_def
      mkRace_def race_a_def race_b_def)

text \<open>
  C2 (as amended). For every filter with an empty identifier set and the narrowing flag
  unset, the builder adds no predicate and no argument: the query is the given query
  followed by the ORDER BY clause of the filter's order directive, and \<^verbatim>\<open>List\<close>
  returns what the store answers to the list query with that clause, mapped. The order
  of the result is the order directive's, so it need not be the order without a filter.
\<close>

theorem empty_filter_query:
  assumes "MeetingIds f = []" and "\<not> VisibleOnly f"
  shows "applyFilter q (Some f) = (q @ order_clause f, []) \<and>
         List X now r (Some f) =
           (case Query X (db r) (racesList X @ order_clause f) [] of
              Inl err \<Rightarrow> ([], Some err)
            | Inr rows \<Rightarrow> scanRaces (TimestampProto X) now rows)"
  using assms by (simp add: List_unfold applyFilter_Some)

text \<open>C2 (witness): the amended statement at the \<^verbatim>\<open>DESC\<close> filter on the example store.\<close>

theorem empty_filter_query_witness:
  "applyFilter list_query (Some desc_filter) =
     (list_query @ '' ORDER BY advertised_start_time DESC'', []) \<and>
   List example_X at_150 (NewRacesRepo [race_a, race_b]) (Some desc_filter) =
     ([mkRace race_b \<lparr>Seconds = 0, Nanos = 200\<rparr> 150, mkRace race_a \<lparr>Seconds = 0, Nanos = 100\<rparr> 150],
      None)"
  using empty_filter_query [of desc_filter list_query example_X at_150 "NewRacesRepo [race_a, race_b]"]
  by (simp add: desc_filter_def order_clause_def example_X_def example_Query_def
      NewRacesRepo_def suffix_def scanRaces_def example_tsproto_def at_150_def
      race_a_def race_b_def)





text \<open>
  C4. \<^verbatim>\<open>Get\<close> on a request never panics, so it never indexes an empty result. When
  the store answers the query with zero rows, \<^verbatim>\<open>Get\<close> returns no race and no error;
  that differs from a store error, which comes back as no race and that error. A race is
  returned only when the store answered with at least one row, and it is the race mapped
  from the first row, not a zero value.
\<close>

theorem Get_not_found:
  "Get X now r (Some f) \<noteq> Panic \<and>
   (Query X (db r) (racesList X @ '' WHERE id='' @ FormatInt10 (req_Id f)) [] = Inr [] \<longrightarrow>
      Get X now r (Some f) = Return (None, None)) \<and>
   (\<forall>e. Query X (db r) (racesList X @ '' WHERE id='' @ FormatInt10 (req_Id f)) [] = Inl e \<longrightarrow>
      Get X now r (Some f) = Return (None, Some e)) \<and>
   (\<forall>race err. Get X now r (Some f) = Return (Some race, err) \<longrightarrow>
      (\<exists>c rows. Query X (db r) (racesList X @ '' WHERE id='' @ FormatInt10 (req_Id f)) [] =
                   Inr (Inr c # rows) \<and>
                 \<not> isl (TimestampProto X (advertisedStart c)) \<and>
                 race = mkRace c (projr (TimestampProto X (advertisedStart c))) (now 0)))"
proof (intro conjI impI allI)
  show "Get X now r (Some f) \<noteq> Panic"
    by (simp add: Get_unfold split: sum.splits prod.splits list.splits)
next
  assume "Query X (db r) (racesList X @ '' WHERE id='' @ FormatInt10 (req_Id f)) [] = Inr []"
  then show "Get X now r (Some f) = Return (None, None)"
    by (simp add: Get_unfold scanRaces_Nil)
next
  fix e
  assume "Query X (db r) (racesList X @ '' WHERE id='' @ FormatInt10 (req_Id f)) [] = Inl e"
  then show "Get X now r (Some f) = Return (None, Some e)"
    by (simp add: Get_unfold)
next
  fix race err
  assume g: "Get X now r (Some f) = Return (Some race, err)"
  let ?q = "racesList X @ '' WHERE id='' @ FormatInt10 (req_Id f)"
  from g obtain rows where rows: "Query X (db r) ?q [] = Inr rows"
    by (cases "Query X (db r) ?q []") (simp_all add: Get_unfold)
  from g rows obtain races where sc: "scanRaces (TimestampProto X) now rows = (race # races, err)"
    by (cases "scanRaces (TimestampProto X) now rows")
       (auto simp: Get_unfold split: list.splits)
  from scanRaces_nth [OF sc, of 0] obtain c where
    c: "rows ! 0 = Inr c" "0 < length rows" "\<not> isl (TimestampProto X (advertisedStart c))"
       "race = mkRace c (projr (TimestampProto X (advertisedStart c))) (now 0)"
    by auto
  from c(1,2) obtain rest where "rows = Inr c # rest" by (cases rows) auto
  with rows c(3,4)
  show "\<exists>c rows. Query X (db r) ?q [] = Inr (Inr c # rows) \<and>
          \<not> isl (TimestampProto X (advertisedStart c)) \<and>
          race = mkRace c (projr (TimestampProto X (advertisedStart c))) (now 0)"
    by blast
qed

text \<open>C4 (witness): the identifier -42 on the example store with an empty table.\<close>

theorem Get_not_found_witness:
  "Query example_X [] (racesList example_X @ '' WHERE id='' @ FormatInt10 (req_Id id_request)) [] = Inr [] \<and>
   Get example_X at_150 (NewRacesRepo []) (Some id_request) = Return (None, None)"
proof -
  have q: "Query example_X (db (NewRacesRepo [])) (racesList example_X @ '' WHERE id='' @ FormatInt10 (req_Id id_request)) [] = Inr []"
    by (simp add: example_X_def example_Query_def NewRacesRepo_def)
  with Get_not_found [of example_X at_150 "NewRacesRepo []" id_request]
  show ?thesis by (simp add: NewRacesRepo_def)
qed

text \<open>
  C7. The query \<^verbatim>\<open>Get\<close> sends is the list query followed by \<^verbatim>\<open> WHERE id=\<close> and the
  identifier formatted by \<open>FormatInt10\<close>, with the empty argument list. The formatted
  identifier is the decimal literal of the signed value: it reads back as that value and
  consists of digits and the minus sign only.
\<close>

theorem Get_query_literal:
  "Get X now r (Some f) =
     (case Query X (db r) (racesList X @ '' WHERE id='' @ FormatInt10 (req_Id f)) [] of
        Inl err \<Rightarrow> Return (None, Some err)
      | Inr rows \<Rightarrow>
          (case scanRaces (TimestampProto X) now rows of
             ([], err) \<Rightarrow> Return (None, err)
           | (race # _, err) \<Rightarrow> Return (Some race, err))) \<and>
   ParseInt10 (FormatInt10 (req_Id f)) = sint (req_Id f) \<and>
   set (FormatInt10 (req_Id f)) \<subseteq> set ''-0123456789''"
  using Get_unfold [of X now r f] FormatInt10_roundtrip [of "req_Id f"] FormatInt10_chars [of "req_Id f"]
  by (intro conjI)

lemma FormatInt10_minus_42: "FormatInt10 (- 42) = ''-42''"
proof -
  have "sint (- 42 :: 64 word) = - 42" by simp
  then show ?thesis
    unfolding FormatInt10_def by (simp add: digits_large digits_small digit_def)
qed


text \<open>
  C7 (witness): the identifier -42 on the store that answers the expected query only.
\<close>

theorem Get_query_literal_witness:
  "FormatInt10 (req_Id id_request) = ''-42'' \<and>
   Get spy_X at_150 (NewRacesRepo [race_a]) (Some id_request) =
     Return (Some (mkRace race_a \<lparr>Seconds = 0, Nanos = 100\<rparr> 150), None)"
proof -
  have f: "FormatInt10 (req_Id id_request) = ''-42''"
    by (simp add: id_request_def FormatInt10_minus_42)
  have q: "Query spy_X (db (NewRacesRepo [race_a])) (racesList spy_X @ '' WHERE id='' @ ''-42'') [] =
             Inr [Inr race_a]"
    by (simp add: spy_X_def spy_Query_def NewRacesRepo_def)
  have s: "scanRaces (TimestampProto spy_X) at_150 [Inr race_a] =
             ([mkRace race_a \<lparr>Seconds = 0, Nanos = 100\<rparr> 150], None)"
    by (simp add: spy_X_def scanRaces_def example_tsproto_def race_a_def at_150_def)
  from Get_query_literal [THEN conjunct1, of spy_X at_150 "NewRacesRepo [race_a]" id_request]
  have "Get spy_X at_150 (NewRacesRepo [race_a]) (Some id_request) =
          Return (Some (mkRace race_a \<lparr>Seconds = 0, Nanos = 100\<rparr> 150), None)"
    by (simp only: f q s sum.case prod.case list.case)
  with f show ?thesis ..
qed

lemma mkRace_Status:
  "Status (mkRace c ts t) = (if advertisedStart c < t then ''CLOSED'' else ''OPEN'')"
  unfolding mkRace_def Before_def by simp

section \<open>The claims about the mapper\<close>

text \<open>
  C5. Every race the mapper returns comes from the row at its position, and its status is
  \<^verbatim>\<open>CLOSED\<close> exactly when the row's advertised start is strictly before the clock
  reading of its pass, and \<^verbatim>\<open>OPEN\<close> exactly when it is not; an advertised start equal
  to the reading gives \<^verbatim>\<open>OPEN\<close>. Mapping the same rows under another clock gives the
  status of that clock: nothing is stored between the two reads.
\<close>

theorem scanRaces_status:
  assumes "scanRaces tsproto now rows = (races, err)" and "i < length races"
  shows "\<exists>c. rows ! i = Inr c \<and>
           (Status (races ! i) = ''CLOSED'' \<longleftrightarrow> Before (advertisedStart c) (now i)) \<and>
           (Status (races ! i) = ''OPEN'' \<longleftrightarrow> \<not> Before (advertisedStart c) (now i)) \<and>
           (Before (advertisedStart c) (now i) \<longleftrightarrow> advertisedStart c < now i) \<and>
           (advertisedStart c = now i \<longrightarrow> Status (races ! i) = ''OPEN'') \<and>
           (\<forall>later. \<exists>races'. scanRaces tsproto later rows = (races', err) \<and>
              length races' = length races \<and>
              (Status (races' ! i) = ''CLOSED'' \<longleftrightarrow> advertisedStart c < later i))"
proof -
  from scanRaces_nth [OF assms] obtain c where
    c: "rows ! i = Inr c" "i < length rows" "length races = length rows" "err = None"
       "races ! i = mkRace c (projr (tsproto (advertisedStart c))) (now i)"
    by blast
  have st: "Status (races ! i) = (if advertisedStart c < now i then ''CLOSED'' else ''OPEN'')"
    using c(5) by (simp add: mkRace_Status)
  have later: "\<exists>races'. scanRaces tsproto later rows = (races', err) \<and>
              length races' = length races \<and>
              (Status (races' ! i) = ''CLOSED'' \<longleftrightarrow> advertisedStart c < later i)" for later
  proof -
    from assms have "fst (scanRaces tsproto now rows) \<noteq> []" by auto
    with scanRaces_cases [of rows tsproto now] obtain cs where
      cs: "rows = map Inr cs" "\<forall>c\<in>set cs. \<not> isl (tsproto (advertisedStart c))" by blast
    let ?races' = "map (\<lambda>(i, c). mkRace c (projr (tsproto (advertisedStart c))) (later i)) (enumerate 0 cs)"
    have l: "scanRaces tsproto later rows = (?races', err)"
      using scanRaces_ok [OF cs(2), of later] cs(1) c(4) by simp
    have n: "length ?races' = length races" using cs(1) c(3) by simp
    from c(1,2) cs(1) have ci: "cs ! i = c" by simp
    from c(2) cs(1) have "i < length cs" by simp
    then have "?races' ! i = mkRace c (projr (tsproto (advertisedStart c))) (later i)"
      using ci by (simp add: nth_enumerate_eq)
    then have "Status (?races' ! i) = ''CLOSED'' \<longleftrightarrow> advertisedStart c < later i"
      by (simp add: mkRace_Status)
    with l n show ?thesis by blast
  qed
  have s1: "Status (races ! i) = ''CLOSED'' \<longleftrightarrow> Before (advertisedStart c) (now i)"
    using st by (simp add: Before_def)
  have s2: "Status (races ! i) = ''OPEN'' \<longleftrightarrow> \<not> Before (advertisedStart c) (now i)"
    using st by (simp add: Before_def)
  have s3: "Before (advertisedStart c) (now i) \<longleftrightarrow> advertisedStart c < now i"
    by (simp add: Before_def)
  have s4: "advertisedStart c = now i \<longrightarrow> Status (races ! i) = ''OPEN''"
    using st by simp
  from c(1) s1 s2 s3 s4 later show ?thesis
    by (intro exI [of _ c] conjI allI)
qed

lemma example_scan:
  "scanRaces example_tsproto now [Inr race_a, Inr race_b] =
     ([mkRace race_a \<lparr>Seconds = 0, Nanos = 100\<rparr> (now 0),
       mkRace race_b \<lparr>Seconds = 0, Nanos = 200\<rparr> (now 1)], None)"
  by (simp add: scanRaces_def example_tsproto_def race_a_def race_b_def)

text \<open>
  C5 (witness): two rows starting at 100 and 200, read at 150, at 200 and at 250.
\<close>

theorem scanRaces_status_witness:
  "map Status (fst (scanRaces example_tsproto at_150 [Inr race_a, Inr race_b])) = [''CLOSED'', ''OPEN''] \<and>
   map Status (fst (scanRaces example_tsproto at_200 [Inr race_a, Inr race_b])) = [''CLOSED'', ''OPEN''] \<and>
   map Status (fst (scanRaces example_tsproto at_250 [Inr race_a, Inr race_b])) = [''CLOSED'', ''CLOSED''] \<and>
   advertisedStart race_b = at_200 1"
proof -
  have a: "scanRaces example_tsproto at_200 [Inr race_a, Inr race_b] =
     ([mkRace race_a \<lparr>Seconds = 0, Nanos = 100\<rparr> 200,
       mkRace race_b \<lparr>Seconds = 0, Nanos = 200\<rparr> 200], None)"
    by (simp add: example_scan at_200_def)
  have b: "(1::nat) < length [mkRace race_a \<lparr>Seconds = 0, Nanos = 100\<rparr> 200,
       mkRace race_b \<lparr>Seconds = 0, Nanos = 200\<rparr> 200]" by simp
  have e: "map Status (fst (scanRaces example_tsproto now [Inr race_a, Inr race_b])) =
             [if advertisedStart race_a < now 0 then ''CLOSED'' else ''OPEN'',
              if advertisedStart race_b < now 1 then ''CLOSED'' else ''OPEN'']" for now
    by (simp add: example_scan mkRace_Status)
  have sa: "advertisedStart race_a = 100" and sb: "advertisedStart race_b = 200"
    by (simp_all add: race_a_def race_b_def)
  from scanRaces_status [OF a b]
  have "Status (mkRace race_b \<lparr>Seconds = 0, Nanos = 200\<rparr> 200) = ''OPEN''"
    by (simp add: at_200_def sb)
  then show ?thesis
    by (simp add: e sa sb at_150_def at_200_def at_250_def)
qed




text \<open>
  C8. On zero rows the mapper returns the empty sequence and no error. A scan that fails
  with \<^verbatim>\<open>sql.ErrNoRows\<close>, after any number of rows mapped, makes the mapper return
  the empty sequence and no error. When the store answers the list query with zero rows,
  \<^verbatim>\<open>List\<close> returns the empty sequence and no error. When every row scans and
  converts, the mapper returns one race per row, in row order.
\<close>

theorem scanRaces_no_rows:
  "scanRaces tsproto now [] = ([], None) \<and>
   ((\<forall>c\<in>set cs. \<not> isl (tsproto (advertisedStart c))) \<longrightarrow>
      scanRaces tsproto now (map Inr cs @ Inl ErrNoRows # rest) = ([], None)) \<and>
   (Query X (db r) (fst (applyFilter (racesList X) fltr)) (snd (applyFilter (racesList X) fltr)) = Inr [] \<longrightarrow>
      List X now r fltr = ([], None)) \<and>
   ((\<forall>c\<in>set cs. \<not> isl (tsproto (advertisedStart c))) \<longrightarrow>
      scanRaces tsproto now (map Inr cs) =
        (map (\<lambda>(i, c). mkRace c (projr (tsproto (advertisedStart c))) (now i)) (enumerate 0 cs), None) \<and>
      map Id' (fst (scanRaces tsproto now (map Inr cs))) = map scan_id cs)"
proof (intro conjI impI)
  show "scanRaces tsproto now [] = ([], None)" by (rule scanRaces_Nil)
next
  assume "\<forall>c\<in>set cs. \<not> isl (tsproto (advertisedStart c))"
  then show "scanRaces tsproto now (map Inr cs @ Inl ErrNoRows # rest) = ([], None)"
    unfolding scanRaces_def by (rule loop_ErrNoRows)
next
  assume "Query X (db r) (fst (applyFilter (racesList X) fltr)) (snd (applyFilter (racesList X) fltr)) = Inr []"
  then show "List X now r fltr = ([], None)"
    by (simp add: List_unfold scanRaces_Nil)
next
  assume ok: "\<forall>c\<in>set cs. \<not> isl (tsproto (advertisedStart c))"
  then show "scanRaces tsproto now (map Inr cs) =
        (map (\<lambda>(i, c). mkRace c (projr (tsproto (advertisedStart c))) (now i)) (enumerate 0 cs), None)"
    by (rule scanRaces_ok)
next
  assume ok: "\<forall>c\<in>set cs. \<not> isl (tsproto (advertisedStart c))"
  have "map Id' (map (\<lambda>(i, c). mkRace c (projr (tsproto (advertisedStart c))) (now i)) (enumerate k cs)) =
          map scan_id cs" for k
    by (induction cs arbitrary: k) (simp_all add: mkRace_def)
  then show "map Id' (fst (scanRaces tsproto now (map Inr cs))) = map scan_id cs"
    by (simp add: scanRaces_ok [OF ok])
qed

text \<open>
  C8 (witness): a result set whose second scan fails with the sentinel, \<^verbatim>\<open>List\<close> on
  the example store with an empty table, and two rows that map.
\<close>

theorem scanRaces_no_rows_witness:
  "scanRaces example_tsproto at_150 [Inr race_a, Inl ErrNoRows, Inr race_b] = ([], None) \<and>
   List example_X at_150 (NewRacesRepo []) (Some ids_filter) = ([], None) \<and>
   map Id' (fst (scanRaces example_tsproto at_150 [Inr race_a, Inr race_b])) = [1, 2]"
proof -
  have q: "Query example_X (db (NewRacesRepo [])) (fst (applyFilter (racesList example_X) (Some ids_filter)))
             (snd (applyFilter (racesList example_X) (Some ids_filter))) = Inr []"
    by (simp add: example_X_def example_Query_def NewRacesRepo_def)
  have ids: "scan_id race_a = 1" "scan_id race_b = 2" by (simp_all add: race_a_def race_b_def)
  from scanRaces_no_rows [of example_tsproto at_150 "[race_a]" "[Inr race_b]" example_X "NewRacesRepo []" "Some ids_filter"]
    scanRaces_no_rows [of example_tsproto at_150 "[race_a, race_b]" "[]" example_X "NewRacesRepo []" "Some ids_filter"]
    q ids
  show ?thesis by (simp add: example_rows_ok mkRace_def)
qed

section \<open>The claims about the gateway and the sports service\<close>

text \<open>
  C9. \<^verbatim>\<open>run\<close> reaches the listening step exactly when both registrations returned no
  error. When the racing registration fails, \<^verbatim>\<open>run\<close> returns its error after that
  one call; when the sports registration fails, \<^verbatim>\<open>run\<close> returns its error after the
  two registrations; in neither case does it listen. When it listens, that is its last
  step, after both registrations, on the multiplexer they left.
\<close>

theorem run_all_or_nothing:
  "(serves (fst (run G)) \<longleftrightarrow>
      fst (RegisterRacingHandlerFromEndpoint G [] (racingEndpoint G)) = None \<and>
      fst (RegisterSportsHandlerFromEndpoint G
             (snd (RegisterRacingHandlerFromEndpoint G [] (racingEndpoint G))) (sportsEndpoint G)) = None) \<and>
   (\<forall>e. fst (RegisterRacingHandlerFromEndpoint G [] (racingEndpoint G)) = Some e \<longrightarrow>
      run G = ([RegisterRacing (racingEndpoint G)], Some e)) \<and>
   (\<forall>e. fst (RegisterRacingHandlerFromEndpoint G [] (racingEndpoint G)) = None \<and>
        fst (RegisterSportsHandlerFromEndpoint G
               (snd (RegisterRacingHandlerFromEndpoint G [] (racingEndpoint G))) (sportsEndpoint G)) = Some e \<longrightarrow>
      run G = ([RegisterRacing (racingEndpoint G), RegisterSports (sportsEndpoint G)], Some e)) \<and>
   (serves (fst (run G)) \<longrightarrow>
      fst (run G) =
        [RegisterRacing (racingEndpoint G), RegisterSports (sportsEndpoint G),
         Printf (''API server listening on: '' @ apiEndpoint G),
         Listen (apiEndpoint G)
           (snd (RegisterSportsHandlerFromEndpoint G
                   (snd (RegisterRacingHandlerFromEndpoint G [] (racingEndpoint G))) (sportsEndpoint G)))])"
proof -
  obtain e1 m1 where r1: "RegisterRacingHandlerFromEndpoint G [] (racingEndpoint G) = (e1, m1)"
    by (cases "RegisterRacingHandlerFromEndpoint G [] (racingEndpoint G)")
  obtain e2 m2 where r2: "RegisterSportsHandlerFromEndpoint G m1 (sportsEndpoint G) = (e2, m2)"
    by (cases "RegisterSportsHandlerFromEndpoint G m1 (sportsEndpoint G)")
  show ?thesis
  proof (cases e1)
    case (Some a)
    then show ?thesis using r1 by (simp add: run_def serves_def is_Listen_def)
  next
    case None
    show ?thesis
    proof (cases e2)
      case (Some b)
      then show ?thesis using r1 r2 None by (simp add: run_def serves_def is_Listen_def)
    next
      case n2: None
      then show ?thesis using r1 r2 None by (simp add: run_def serves_def is_Listen_def)
    qed
  qed
qed

text \<open>
  C9 (witness): a gateway whose racing registration fails, one whose sports registration
  fails, and one where both succeed.
\<close>

theorem run_all_or_nothing_witness:
  "run gateway_racing_down = ([RegisterRacing ''localhost:9000''], Some (Err ''bad endpoint'')) \<and>
   run gateway_sports_down =
     ([RegisterRacing ''localhost:9000'', RegisterSports ''localhost:10000''], Some (Err ''bad endpoint'')) \<and>
   fst (run gateway_up) =
     [RegisterRacing ''localhost:9000'', RegisterSports ''localhost:10000'',
      Printf ''API server listening on: localhost:8000'',
      Listen ''localhost:8000'' [''racing'', ''sports'']] \<and>
   serves (fst (run gateway_up)) \<and> \<not> serves (fst (run gateway_sports_down)) \<and>
   \<not> serves (fst (run gateway_racing_down))"
proof -
  have r: "RegisterRacingHandlerFromEndpoint gateway_racing_down [] ''localhost:9000'' =
             (Some (Err ''bad endpoint''), [])"
          "racingEndpoint gateway_racing_down = ''localhost:9000''"
    by (simp_all add: gateway_racing_down_def gateway_up_def register_fails_def)
  have s: "RegisterRacingHandlerFromEndpoint gateway_sports_down [] ''localhost:9000'' =
             (None, [''racing''])"
          "RegisterSportsHandlerFromEndpoint gateway_sports_down [''racing''] ''localhost:10000'' =
             (Some (Err ''bad endpoint''), [''racing''])"
          "racingEndpoint gateway_sports_down = ''localhost:9000''"
          "sportsEndpoint gateway_sports_down = ''localhost:10000''"
    by (simp_all add: gateway_sports_down_def gateway_up_def register_fails_def register_ok_def)
  have u: "RegisterRacingHandlerFromEndpoint gateway_up [] ''localhost:9000'' =
             (None, [''racing''])"
          "RegisterSportsHandlerFromEndpoint gateway_up [''racing''] ''localhost:10000'' =
             (None, [''racing'', ''sports''])"
          "racingEndpoint gateway_up = ''localhost:9000''"
          "sportsEndpoint gateway_up = ''localhost:10000''"
          "apiEndpoint gateway_up = ''localhost:8000''"
    by (simp_all add: gateway_up_def register_ok_def)
  from run_all_or_nothing [of gateway_racing_down] have 1:
    "run gateway_racing_down = ([RegisterRacing ''localhost:9000''], Some (Err ''bad endpoint'')) \<and>
     \<not> serves (fst (run gateway_racing_down))"
    by (simp add: r serves_def is_Listen_def)
  from run_all_or_nothing [of gateway_sports_down] have 2:
    "run gateway_sports_down =
     ([RegisterRacing ''localhost:9000'', RegisterSports ''localhost:10000''], Some (Err ''bad endpoint'')) \<and>
     \<not> serves (fst (run gateway_sports_down))"
    by (simp add: s serves_def is_Listen_def)
  from run_all_or_nothing [of gateway_up] have 3:
    "serves (fst (run gateway_up)) \<and> fst (run gateway_up) =
     [RegisterRacing ''localhost:9000'', RegisterSports ''localhost:10000'',
      Printf ''API server listening on: localhost:8000'',
      Listen ''localhost:8000'' [''racing'', ''sports'']]"
    by (simp add: u serves_def is_Listen_def)
  from 1 2 3 show ?thesis by blast
qed

text \<open>
  C10. \<^verbatim>\<open>ListEvents\<close> calls the repository's \<^verbatim>\<open>List\<close> on the request's filter and
  on nothing else. When the repository returns an error, the result is no response and
  that error; otherwise it is a response whose events are the repository's list as
  returned, and no error.
\<close>

theorem ListEvents_passes_through:
  "(\<forall>events e. eventsRepo_List (Filter rq) = (events, Some e) \<longrightarrow>
      ListEvents eventsRepo_List (Some rq) = Return (None, Some e)) \<and>
   (\<forall>events. eventsRepo_List (Filter rq) = (events, None) \<longrightarrow>
      ListEvents eventsRepo_List (Some rq) = Return (Some \<lparr>Events = events\<rparr>, None)) \<and>
   (\<forall>other. other (Filter rq) = eventsRepo_List (Filter rq) \<longrightarrow>
      ListEvents other (Some rq) = ListEvents eventsRepo_List (Some rq))"
  unfolding ListEvents_def by (simp add: case_prod_beta)

text \<open>C10 (witness): a repository that finds three events, and one that fails.\<close>

theorem ListEvents_passes_through_witness:
  "ListEvents events_found (Some events_request) = Return (Some \<lparr>Events = [9, 7, 8]\<rparr>, None) \<and>
   ListEvents events_failed (Some events_request) = Return (None, Some (Err ''query failed''))"
  using ListEvents_passes_through [of events_found events_request]
    ListEvents_passes_through [of events_failed events_request]
  by (simp add: events_found_def events_failed_def events_request_def)

end
